theory Spec2Isabelle
  imports Complex_Main "HOL-Library.Char_ord" "HOL-Library.List_Lexorder"
    "HOL-Library.Product_Lexorder" "HOL-Library.Multiset"
begin

section \<open>Python strings\<close>

text \<open>
  A Python \<open>str\<close> is modelled as a \<open>string\<close>: a list of 8-bit characters, read as the
  code points below 256. \<open>len\<close> is \<open>length\<close>, \<open>s[:n]\<close> is \<open>take n s\<close> and \<open>s[-n:]\<close>
  (for \<open>n > 0\<close>) is \<open>drop (length s - n) s\<close>, which is the whole string when it is
  shorter than \<open>n\<close>, as in Python. Python floats are modelled as \<open>real\<close>.
\<close>

abbreviation NL :: char where "NL \<equiv> CHR 0x0A"
abbreviation DQ :: char where "DQ \<equiv> CHR 0x22"

definition isspace :: "char \<Rightarrow> bool" where
  \<comment> \<open>\<open>str.isspace\<close> and the regular expression class \<open>\s\<close>\<close>
  "isspace c = (let n = (of_char c :: nat) in
      (9 \<le> n \<and> n \<le> 13) \<or> (28 \<le> n \<and> n \<le> 32) \<or> n = 133 \<or> n = 160)"

definition isdigit :: "char \<Rightarrow> bool" where
  \<comment> \<open>the regular expression class \<open>\d\<close>\<close>
  "isdigit c = (let n = (of_char c :: nat) in 48 \<le> n \<and> n \<le> 57)"

definition isword :: "char \<Rightarrow> bool" where
  \<comment> \<open>the regular expression class \<open>\w\<close>: alphanumeric or the underscore\<close>
  "isword c = (let n = (of_char c :: nat) in
      (48 \<le> n \<and> n \<le> 57) \<or> (65 \<le> n \<and> n \<le> 90) \<or> n = 95 \<or> (97 \<le> n \<and> n \<le> 122) \<or>
      n = 170 \<or> n = 178 \<or> n = 179 \<or> n = 181 \<or> n = 185 \<or> n = 186 \<or>
      (188 \<le> n \<and> n \<le> 190) \<or> (192 \<le> n \<and> n \<le> 214) \<or> (216 \<le> n \<and> n \<le> 246) \<or>
      248 \<le> n)"

definition is_upper_az :: "char \<Rightarrow> bool" where
  \<comment> \<open>the regular expression class \<open>[A-Z]\<close>\<close>
  "is_upper_az c = (let n = (of_char c :: nat) in 65 \<le> n \<and> n \<le> 90)"

definition is_lower_az :: "char \<Rightarrow> bool" where
  \<comment> \<open>the regular expression class \<open>[a-z]\<close>\<close>
  "is_lower_az c = (let n = (of_char c :: nat) in 97 \<le> n \<and> n \<le> 122)"

definition lower_char :: "char \<Rightarrow> char" where
  "lower_char c = (let n = (of_char c :: nat) in
      if (65 \<le> n \<and> n \<le> 90) \<or> (192 \<le> n \<and> n \<le> 222 \<and> n \<noteq> 215)
      then char_of (n + 32) else c)"

definition lower :: "string \<Rightarrow> string" where
  \<comment> \<open>\<open>str.lower\<close>\<close>
  "lower s = map lower_char s"

fun startswith :: "string \<Rightarrow> string \<Rightarrow> bool" where
  "startswith s [] = True"
| "startswith [] (p # ps) = False"
| "startswith (c # cs) (p # ps) = (c = p \<and> startswith cs ps)"

fun contains :: "string \<Rightarrow> string \<Rightarrow> bool" where
  \<comment> \<open>\<open>contains sub s\<close> is Python's \<open>sub in s\<close>\<close>
  "contains sub [] = (sub = [])"
| "contains sub (c # cs) = (startswith (c # cs) sub \<or> contains sub cs)"

definition strip :: "string \<Rightarrow> string" where
  \<comment> \<open>\<open>str.strip()\<close>\<close>
  "strip s = rev (dropWhile isspace (rev (dropWhile isspace s)))"

fun split_on :: "char \<Rightarrow> string \<Rightarrow> string list" where
  \<comment> \<open>\<open>s.split(sep)\<close> for a one-character separator: the empty string gives \<open>['']\<close>\<close>
  "split_on sep [] = [[]]"
| "split_on sep (c # cs) =
     (if c = sep then [] # split_on sep cs
      else (case split_on sep cs of [] \<Rightarrow> [[c]] | w # ws \<Rightarrow> (c # w) # ws))"

fun join :: "string \<Rightarrow> string list \<Rightarrow> string" where
  \<comment> \<open>\<open>sep.join(xs)\<close>\<close>
  "join sep [] = []"
| "join sep [x] = x"
| "join sep (x # y # ys) = x @ sep @ join sep (y # ys)"

definition digit_char :: "nat \<Rightarrow> char" where
  "digit_char d = char_of (48 + d)"

function str_nat :: "nat \<Rightarrow> string" where
  \<comment> \<open>\<open>str(n)\<close> for a non-negative integer, as an f-string prints it\<close>
  "str_nat n = (if n < 10 then [digit_char n] else str_nat (n div 10) @ [digit_char (n mod 10)])"
  by pat_completeness auto
termination
  by (relation "measure (\<lambda>n. n)") auto

declare str_nat.simps [simp del]

section \<open>The regular expressions of the source\<close>

text \<open>
  Each regular expression of the source is written out as the matcher it denotes.
  \<open>re.match\<close> anchors a pattern at the start of the line, \<open>re.search\<close> tries every start,
  and \<open>.\<close> is every character but the newline.
\<close>

fun re_search :: "(string \<Rightarrow> bool) \<Rightarrow> string \<Rightarrow> bool" where
  "re_search m [] = m []"
| "re_search m (c # cs) = (m (c # cs) \<or> re_search m cs)"

definition dot_run :: "string \<Rightarrow> string" where
  \<comment> \<open>the longest prefix \<open>.*\<close> can cover\<close>
  "dot_run s = takeWhile (\<lambda>c. c \<noteq> NL) s"

definition ws_then_word :: "string \<Rightarrow> bool" where
  \<comment> \<open>\<open>\s+\w+\<close> at the start of the string\<close>
  "ws_then_word r =
     (case r of [] \<Rightarrow> False
      | c # cs \<Rightarrow> isspace c \<and>
          (case dropWhile isspace cs of [] \<Rightarrow> False | d # ds \<Rightarrow> isword d))"

definition re_import :: "string \<Rightarrow> bool" where
  \<comment> \<open>\<open>^(import|from)\s+\w+\<close>\<close>
  "re_import l = ((startswith l ''import'' \<and> ws_then_word (drop 6 l)) \<or>
                  (startswith l ''from'' \<and> ws_then_word (drop 4 l)))"

definition re_function_def :: "string \<Rightarrow> bool" where
  \<comment> \<open>\<open>^def\s+\w+\<close>\<close>
  "re_function_def l = (startswith l ''def'' \<and> ws_then_word (drop 3 l))"

definition re_class_def :: "string \<Rightarrow> bool" where
  \<comment> \<open>\<open>^class\s+\w+\<close>\<close>
  "re_class_def l = (startswith l ''class'' \<and> ws_then_word (drop 5 l))"

definition re_variable_assignment :: "string \<Rightarrow> bool" where
  \<comment> \<open>\<open>^\w+\s*=\s*\<close>\<close>
  "re_variable_assignment l =
     (case l of [] \<Rightarrow> False
      | c # cs \<Rightarrow> isword c \<and>
          (case dropWhile isspace (dropWhile isword cs) of
             [] \<Rightarrow> False | d # ds \<Rightarrow> d = CHR ''=''))"

definition line_digit_at :: "string \<Rightarrow> bool" where
  \<comment> \<open>\<open>line \d+\<close> at the start of the string\<close>
  "line_digit_at s =
     (startswith s ''line '' \<and> (case drop 5 s of [] \<Rightarrow> False | d # ds \<Rightarrow> isdigit d))"

fun quote_then_line :: "string \<Rightarrow> bool" where
  \<comment> \<open>\<open>.*".*line \d+\<close> at the start of a string without newline\<close>
  "quote_then_line [] = False"
| "quote_then_line (c # cs) = ((c = DQ \<and> re_search line_digit_at cs) \<or> quote_then_line cs)"

definition re_error_traceback :: "string \<Rightarrow> bool" where
  \<comment> \<open>\<open>Traceback.*Error:|File ".*".*line \d+\<close>\<close>
  "re_error_traceback l =
     ((startswith l ''Traceback'' \<and> contains ''Error:'' (dot_run (drop 9 l))) \<or>
      (startswith l (''File '' @ [DQ]) \<and> quote_then_line (dot_run (drop 6 l))))"

definition re_test_result :: "string \<Rightarrow> bool" where
  \<comment> \<open>\<open>(PASSED|FAILED|ERROR|SKIPPED)\<close>\<close>
  "re_test_result l = (startswith l ''PASSED'' \<or> startswith l ''FAILED'' \<or>
                       startswith l ''ERROR'' \<or> startswith l ''SKIPPED'')"

definition code_patterns :: "(string \<times> (string \<Rightarrow> bool)) list" where
  "code_patterns =
     [(''import'', re_import), (''function_def'', re_function_def),
      (''class_def'', re_class_def), (''variable_assignment'', re_variable_assignment),
      (''error_traceback'', re_error_traceback), (''test_result'', re_test_result)]"

definition error_class_at :: "string \<Rightarrow> bool" where
  \<comment> \<open>\<open>[A-Z][a-z]+Error:\<close> at the start of the string\<close>
  "error_class_at s =
     (case s of [] \<Rightarrow> False
      | c # cs \<Rightarrow> is_upper_az c \<and>
          (case cs of [] \<Rightarrow> False
           | d # ds \<Rightarrow> is_lower_az d \<and> startswith (dropWhile is_lower_az ds) ''Error:''))"

definition re_list_item :: "string \<Rightarrow> bool" where
  \<comment> \<open>\<open>^\d+\.|^[-*+]\s\<close>\<close>
  "re_list_item l =
     (case l of [] \<Rightarrow> False
      | c # cs \<Rightarrow>
          (isdigit c \<and> (case dropWhile isdigit cs of [] \<Rightarrow> False | d # ds \<Rightarrow> d = CHR ''.'')) \<or>
          ((c = CHR ''-'' \<or> c = CHR ''*'' \<or> c = CHR ''+'') \<and>
           (case cs of [] \<Rightarrow> False | d # ds \<Rightarrow> isspace d)))"

section \<open>Compression strategies\<close>

definition important_words :: "string list" where
  "important_words = [''understand'', ''need'', ''should'', ''must'', ''important'', ''key'',
     ''solution'', ''problem'']"

definition compress_conversation :: "string \<Rightarrow> string" where
  "compress_conversation content =
     (let sentences = split_on (CHR ''.'') content;
          key_sentences =
            filter (\<lambda>sentence. length sentence > 10 \<and>
                      list_ex (\<lambda>word. contains word (lower sentence)) important_words)
                   (map strip sentences);
          compressed =
            (if length sentences > 10
             then take 3 sentences @ [''[...]''] @ key_sentences @ [''[...]''] @
                  drop (length sentences - 3) sentences
             else sentences)
      in join ''. '' compressed)"

definition code_line_kept :: "string \<Rightarrow> bool" where
  \<comment> \<open>the body of the loop of \<open>_compress_code\<close>, on the stripped line\<close>
  "code_line_kept line =
     (if line = [] \<or> startswith line ''#'' then False
      else list_ex (\<lambda>(pattern_name, pattern). pattern line) code_patterns)"

definition compress_code :: "string \<Rightarrow> string" where
  "compress_code code =
     (let lines = split_on NL code;
          compressed_lines = filter code_line_kept (map strip lines);
          compressed_lines' =
            (if length lines > length compressed_lines * 2
             then (''# Code compressed: '' @ str_nat (length lines) @ '' -> '' @
                   str_nat (length compressed_lines) @ '' lines'') # compressed_lines
             else compressed_lines)
      in join [NL] compressed_lines')"

definition error_line_keywords :: "string list" where
  "error_line_keywords = [''error:'', ''exception:'', ''traceback'', ''file '' @ [DQ], ''line'']"

definition error_line_kept :: "string \<Rightarrow> bool" where
  \<comment> \<open>the body of the loop of \<open>_compress_error\<close>, on the stripped line\<close>
  "error_line_kept line =
     (if list_ex (\<lambda>keyword. contains keyword (lower line)) error_line_keywords then True
      else re_search error_class_at line)"

definition error_key_lines :: "string \<Rightarrow> string list" where
  "error_key_lines error_content = filter error_line_kept (map strip (split_on NL error_content))"

definition omission_marker :: "nat \<Rightarrow> string" where
  "omission_marker n = ''[... '' @ str_nat n @ '' more error lines ...]''"

definition compress_error :: "string \<Rightarrow> string" where
  "compress_error error_content =
     (let key_lines = error_key_lines error_content;
          key_lines' =
            (if length key_lines > 20
             then take 10 key_lines @ [omission_marker (length key_lines - 20)] @
                  drop (length key_lines - 10) key_lines
             else key_lines)
      in if key_lines' \<noteq> [] then join [NL] key_lines' else take 500 error_content @ ''...'')"

definition action_words :: "string list" where
  "action_words = [''step'', ''solution'', ''fix'', ''implement'', ''change'', ''add'', ''remove'']"

definition solution_line_kept :: "string \<Rightarrow> bool" where
  \<comment> \<open>the body of the loop of \<open>_compress_solution\<close>, on the stripped line\<close>
  "solution_line_kept line =
     (if re_list_item line then True
      else list_ex (\<lambda>word. contains word (lower line)) action_words)"

definition compress_solution :: "string \<Rightarrow> string" where
  "compress_solution solution =
     (let lines = split_on NL solution;
          key_steps = filter solution_line_kept (map strip lines);
          compressed =
            (if length lines > length key_steps * 2
             then take 2 lines @ key_steps @ drop (length lines - 2) lines
             else key_steps)
      in join [NL] compressed)"

definition compress_generic :: "string \<Rightarrow> string" where
  "compress_generic content =
     (if length content > 500
      then take 250 content @ [NL] @ ''[... compressed ...]'' @ [NL] @
           drop (length content - 250) content
      else content)"

definition compress_by_type :: "string \<Rightarrow> string \<Rightarrow> string" where
  "compress_by_type content memory_type =
     (if memory_type = ''conversation'' then compress_conversation content
      else if memory_type = ''code'' then compress_code content
      else if memory_type = ''error'' then compress_error content
      else if memory_type = ''solution'' then compress_solution content
      else compress_generic content)"

definition traceback25 :: string where
  \<comment> \<open>a traceback of 25 lines, each of which qualifies\<close>
  "traceback25 = join [NL]
     ([''Traceback:''] @
      map (\<lambda>k. ''File '' @ [DQ] @ ''m'' @ [DQ] @ '', line '' @ str_nat k) [1..<24] @
      [''KeyError: 1''])"

section \<open>Scoring engine\<close>

fun find_last :: "string \<Rightarrow> string \<Rightarrow> nat option" where
  \<comment> \<open>the start of the last occurrence of \<open>sub\<close> in the string, as \<open>str.rfind\<close>\<close>
  "find_last sub [] = (if sub = [] then Some 0 else None)"
| "find_last sub (c # cs) =
     (case find_last sub cs of
        Some i \<Rightarrow> Some (Suc i)
      | None \<Rightarrow> (if startswith (c # cs) sub then Some 0 else None))"

text \<open>
  For \<open>re.findall\<close> a matcher returns the length of the match that starts at the head of
  the string, the one the backtracking search of \<open>re\<close> finds first: the quantifiers are
  greedy, so \<open>.*\<close> followed by a literal ends at the last occurrence of the literal on
  the line.
\<close>

definition m_lit_ws_word :: "string \<Rightarrow> string \<Rightarrow> nat option" where
  \<comment> \<open>\<open>lit\s+\w+\<close>\<close>
  "m_lit_ws_word lit s =
     (if startswith s lit then
        (let r = drop (length lit) s;
             ws = takeWhile isspace r;
             w = takeWhile isword (dropWhile isspace r)
         in if ws = [] \<or> w = [] then None else Some (length lit + length ws + length w))
      else None)"

definition m_lit_ws_dots_colon :: "string \<Rightarrow> string \<Rightarrow> nat option" where
  \<comment> \<open>\<open>lit\s+.*:\<close>\<close>
  "m_lit_ws_dots_colon lit s =
     (if startswith s lit then
        (let r = drop (length lit) s;
             ws = takeWhile isspace r;
             seg = dot_run (dropWhile isspace r)
         in if ws = [] then None
            else (case find_last '':'' seg of
                    None \<Rightarrow> None
                  | Some i \<Rightarrow> Some (length lit + length ws + i + 1)))
      else None)"

definition m_try :: "string \<Rightarrow> nat option" where
  \<comment> \<open>\<open>try:\<close>\<close>
  "m_try s = (if startswith s ''try:'' then Some 4 else None)"

definition m_intent_comment :: "string \<Rightarrow> nat option" where
  \<comment> \<open>\<open>#.*TODO|FIXME|NOTE\<close>\<close>
  "m_intent_comment s =
     (case (case s of [] \<Rightarrow> None
            | c # cs \<Rightarrow>
                (if c = CHR ''#''
                 then (case find_last ''TODO'' (dot_run cs) of
                         None \<Rightarrow> None | Some i \<Rightarrow> Some (1 + i + 4))
                 else None)) of
        Some n \<Rightarrow> Some n
      | None \<Rightarrow>
          (if startswith s ''FIXME'' then Some 5
           else if startswith s ''NOTE'' then Some 4 else None))"

fun count_from :: "(string \<Rightarrow> nat option) \<Rightarrow> nat \<Rightarrow> string \<Rightarrow> nat" where
  \<comment> \<open>the scan of \<open>re.findall\<close>: \<open>skip\<close> characters of the last match are still to pass\<close>
  "count_from m skip [] = 0"
| "count_from m skip (c # cs) =
     (if skip > 0 then count_from m (skip - 1) cs
      else (case m (c # cs) of
              Some n \<Rightarrow> 1 + count_from m (n - 1) cs
            | None \<Rightarrow> count_from m 0 cs))"

definition findall_count :: "(string \<Rightarrow> nat option) \<Rightarrow> string \<Rightarrow> nat" where
  \<comment> \<open>\<open>len(re.findall(pattern, code, re.MULTILINE))\<close>: the non-overlapping matches\<close>
  "findall_count m code = count_from m 0 code"

definition complexity_indicators :: "((string \<Rightarrow> nat option) \<times> real) list" where
  "complexity_indicators =
     [(m_lit_ws_word ''def'', 0.1), (m_lit_ws_word ''class'', 0.15),
      (m_lit_ws_dots_colon ''if'', 0.05), (m_lit_ws_dots_colon ''for'', 0.05),
      (m_lit_ws_dots_colon ''while'', 0.05), (m_try, 0.1),
      (m_lit_ws_word ''import'', 0.02), (m_intent_comment, 0.1)]"

definition calculate_code_complexity :: "string \<Rightarrow> real" where
  "calculate_code_complexity code =
     (let total_score =
            foldl (\<lambda>total (pattern, weight).
                     total + min (real (findall_count pattern code) * weight) 0.5)
                  0 complexity_indicators
      in min total_score 1)"

definition error_keywords :: "string list" where
  "error_keywords = [''error'', ''exception'', ''failed'', ''traceback'', ''bug'', ''fix'']"

type_synonym context_dict = "(string \<times> real) list"

text \<open>
  The caller's context dictionary is an association list from keys to numbers; an absent
  context is \<open>None\<close>. The importance is the sum of the list of factors the source builds.
\<close>

definition calculate_importance :: "string \<Rightarrow> string \<Rightarrow> context_dict option \<Rightarrow> real" where
  "calculate_importance content mem_type context =
     (let length_score = min (real (length content) / 1000) 1;
          factors1 = [length_score * 0.2];
          error_score =
            real (length (filter (\<lambda>keyword. contains (lower keyword) (lower content))
                                 error_keywords)) /
            real (length error_keywords);
          factors2 = factors1 @ [min error_score 1 * 0.3];
          factors3 =
            (if mem_type = ''code''
             then factors2 @ [calculate_code_complexity content * 0.2] else factors2);
          factors4 =
            (case context of
               None \<Rightarrow> factors3
             | Some ctx \<Rightarrow>
                 (case map_of ctx ''relevance'' of
                    None \<Rightarrow> factors3
                  | Some relevance \<Rightarrow> factors3 @ [relevance * 0.2]));
          factors5 = factors4 @ [0.1]
      in sum_list factors5)"

section \<open>The memory store\<close>

text \<open>
  Time stamps are instants in seconds (the source keeps the ISO text of the instant and
  parses it back). A dictionary is an association list in insertion order with distinct
  keys: assigning to a present key keeps its place, a new key goes to the end.
\<close>

record memory_summary =
  summary_id :: string
  timestamp :: real
  summary_type :: string
  key_points :: "string list"
  entities :: "string list"
  patterns :: "string list"
  decisions :: "string list"
  compressed_memories :: "string list"

record compressed_memory =
  memory_id :: string
  timestamp :: real
  memory_type :: string
  original_content :: string
  compressed_content :: string
  key_entities :: "string list"
  importance_score :: real
  compression_ratio :: real
  metadata :: context_dict

record memory_compressor =
  max_memory_size :: int
  compression_threshold :: real
  importance_threshold :: real
  compressed_memories :: "(string \<times> compressed_memory) list"
  memory_summaries :: "(string \<times> memory_summary) list"
  recent_memories :: "string list"
  total_original_size :: int
  total_compressed_size :: int
  compression_count :: int

fun dict_set :: "('k \<times> 'v) list \<Rightarrow> 'k \<Rightarrow> 'v \<Rightarrow> ('k \<times> 'v) list" where
  \<comment> \<open>\<open>d[k] = v\<close>\<close>
  "dict_set [] k v = [(k, v)]"
| "dict_set ((k', v') # d) k v = (if k' = k then (k, v) # d else (k', v') # dict_set d k v)"

definition dict_del :: "('k \<times> 'v) list \<Rightarrow> 'k \<Rightarrow> ('k \<times> 'v) list" where
  \<comment> \<open>\<open>del d[k]\<close>\<close>
  "dict_del d k = filter (\<lambda>(k', v'). k' \<noteq> k) d"

definition deque_append :: "nat \<Rightarrow> 'a list \<Rightarrow> 'a \<Rightarrow> 'a list" where
  \<comment> \<open>\<open>append\<close> on a \<open>deque\<close> of the given \<open>maxlen\<close>: the oldest element leaves a full one\<close>
  "deque_append maxlen q x = (let q' = q @ [x] in drop (length q' - maxlen) q')"

definition slice_to :: "int \<Rightarrow> 'a list \<Rightarrow> 'a list" where
  \<comment> \<open>\<open>xs[:n]\<close>: a negative \<open>n\<close> counts from the end\<close>
  "slice_to n xs = (if 0 \<le> n then take (nat n) xs else take (length xs - nat (- n)) xs)"

definition MemoryCompressor :: "int \<Rightarrow> real \<Rightarrow> real \<Rightarrow> memory_compressor" where
  "MemoryCompressor max_size compression_thr importance_thr =
     \<lparr> max_memory_size = max_size,
       compression_threshold = compression_thr,
       importance_threshold = importance_thr,
       compressed_memories = [],
       memory_summaries = [],
       recent_memories = [],
       total_original_size = 0,
       total_compressed_size = 0,
       compression_count = 0 \<rparr>"

definition default_compressor :: memory_compressor where
  \<comment> \<open>\<open>MemoryCompressor()\<close> with the default arguments\<close>
  "default_compressor = MemoryCompressor 1000 0.7 0.5"

definition recency_score :: "real \<Rightarrow> compressed_memory \<Rightarrow> real" where
  "recency_score current_time memory =
     max 0 (1 - (current_time - timestamp memory) / (7 * 24 * 3600))"

definition combined_score :: "real \<Rightarrow> compressed_memory \<Rightarrow> real" where
  "combined_score current_time memory =
     importance_score memory * 0.7 + recency_score current_time memory * 0.3"

definition remove_memory :: "memory_compressor \<Rightarrow> string \<Rightarrow> memory_compressor" where
  \<comment> \<open>the body of the removal loop of \<open>_cleanup_old_memories\<close>\<close>
  "remove_memory self mem_id =
     (case map_of (compressed_memories self) mem_id of
        None \<Rightarrow> self
      | Some memory \<Rightarrow>
          self \<lparr> total_original_size :=
                   total_original_size self - int (length (original_content memory)),
                 total_compressed_size :=
                   total_compressed_size self - int (length (compressed_content memory)),
                 compressed_memories := dict_del (compressed_memories self) mem_id \<rparr>)"

definition memories_with_scores :: "real \<Rightarrow> memory_compressor \<Rightarrow> (real \<times> string) list" where
  "memories_with_scores current_time self =
     map (\<lambda>(mem_id, memory). (combined_score current_time memory, mem_id))
         (compressed_memories self)"

definition cleanup_old_memories :: "real \<Rightarrow> memory_compressor \<Rightarrow> memory_compressor" where
  \<comment> \<open>\<open>current_time\<close> is the reading of the clock inside the call\<close>
  "cleanup_old_memories current_time self =
     (if int (length (compressed_memories self)) \<le> max_memory_size self then self
      else
        (let sorted_scores = sort (memories_with_scores current_time self);
             to_remove = int (length (compressed_memories self)) - max_memory_size self
         in foldl remove_memory self (map snd (slice_to to_remove sorted_scores))))"

definition make_memory ::
  "(string \<Rightarrow> string \<Rightarrow> string list) \<Rightarrow> string \<Rightarrow> real \<Rightarrow> string \<Rightarrow> string \<Rightarrow>
   context_dict option \<Rightarrow> compressed_memory" where
  \<comment> \<open>the entry \<open>compress_memory\<close> creates; \<open>new_id\<close> is the identifier
      \<open>_generate_memory_id\<close> returns (a digest and the clock) and \<open>extract\<close> stands for
      \<open>_extract_entities\<close>, whose result is listed in the unspecified order of a set\<close>
  "make_memory extract new_id now content mem_type context =
     (let importance = calculate_importance content mem_type context;
          compressed = compress_by_type content mem_type;
          entities = extract content mem_type;
          ratio = (if content \<noteq> [] then real (length compressed) / real (length content)
                   else 1)
      in \<lparr> memory_id = new_id,
           timestamp = now,
           memory_type = mem_type,
           original_content = content,
           compressed_content = compressed,
           key_entities = entities,
           importance_score = importance,
           compression_ratio = ratio,
           metadata = (case context of None \<Rightarrow> [] | Some ctx \<Rightarrow> ctx) \<rparr>)"

definition store_memory :: "memory_compressor \<Rightarrow> compressed_memory \<Rightarrow> memory_compressor" where
  \<comment> \<open>the insertion of \<open>compress_memory\<close>: the entry, the recent ring and the totals\<close>
  "store_memory self memory =
     self \<lparr> compressed_memories :=
              dict_set (compressed_memories self) (memory_id memory) memory,
            recent_memories := deque_append 100 (recent_memories self) (memory_id memory),
            total_original_size :=
              total_original_size self + int (length (original_content memory)),
            total_compressed_size :=
              total_compressed_size self + int (length (compressed_content memory)),
            compression_count := compression_count self + 1 \<rparr>"

definition compress_memory ::
  "(string \<Rightarrow> string \<Rightarrow> string list) \<Rightarrow> string \<Rightarrow> real \<Rightarrow> real \<Rightarrow> memory_compressor \<Rightarrow>
   string \<Rightarrow> string \<Rightarrow> context_dict option \<Rightarrow> string \<times> memory_compressor" where
  "compress_memory extract new_id now current_time self content mem_type context =
     (let memory = make_memory extract new_id now content mem_type context;
          self1 = store_memory self memory;
          self2 =
            (if int (length (compressed_memories self1)) > max_memory_size self1
             then cleanup_old_memories current_time self1 else self1)
      in (new_id, self2))"

definition get_memory :: "memory_compressor \<Rightarrow> string \<Rightarrow> compressed_memory option" where
  "get_memory self mem_id = map_of (compressed_memories self) mem_id"

definition get_summary :: "memory_compressor \<Rightarrow> string \<Rightarrow> memory_summary option" where
  "get_summary self sum_id = map_of (memory_summaries self) sum_id"

section \<open>Search\<close>

definition search_score :: "string \<Rightarrow> compressed_memory \<Rightarrow> real" where
  "search_score query memory =
     (let query_lower = lower query;
          score1 = (if contains query_lower (lower (compressed_content memory)) then 1 else 0);
          score2 =
            (if list_ex (\<lambda>entity. contains query_lower (lower entity)) (key_entities memory)
             then score1 + 0.5 else score1)
      in score2 + importance_score memory * 0.3)"

definition type_filtered :: "string option \<Rightarrow> compressed_memory \<Rightarrow> bool" where
  \<comment> \<open>the entries the type filter skips: \<open>None\<close> and the empty string filter nothing\<close>
  "type_filtered type_filter memory =
     (case type_filter of
        None \<Rightarrow> False
      | Some t \<Rightarrow> (if t = [] then False else memory_type memory \<noteq> t))"

definition search_results ::
  "memory_compressor \<Rightarrow> string \<Rightarrow> string option \<Rightarrow> (real \<times> compressed_memory) list" where
  \<comment> \<open>the list \<open>results\<close> after the loop and the sort\<close>
  "search_results self query type_filter =
     (let candidates =
            filter (\<lambda>memory. \<not> type_filtered type_filter memory)
                   (map snd (compressed_memories self));
          results =
            filter (\<lambda>(score, memory). score > 0)
                   (map (\<lambda>memory. (search_score query memory, memory)) candidates)
      in sort_key (\<lambda>(score, memory). - score) results)"

definition search_memories ::
  "memory_compressor \<Rightarrow> string \<Rightarrow> string option \<Rightarrow> int \<Rightarrow> compressed_memory list" where
  "search_memories self query type_filter limit =
     map snd (slice_to limit (search_results self query type_filter))"

section \<open>Reset\<close>

definition reset_memory_compression :: "memory_compressor \<Rightarrow> memory_compressor \<times> string" where
  \<comment> \<open>the argument is the global compressor before the call, the first component of the
      result the global compressor after it\<close>
  "reset_memory_compression global =
     (default_compressor, ''Memory compression system reset successfully.'')"

section \<open>Summaries\<close>

definition summary_step ::
  "string list \<times> string list \<times> string list \<Rightarrow> compressed_memory \<Rightarrow>
   string list \<times> string list \<times> string list" where
  \<comment> \<open>the body of the loop of \<open>generate_summary\<close> over the key points, the entities
      collected so far and the decisions\<close>
  "summary_step acc memory =
     (case acc of (points, ents, decs) \<Rightarrow>
        (let content_lines = split_on NL (compressed_content memory);
             points' = points @ filter (\<lambda>line. length line > 20) (map strip content_lines);
             ents' = ents @ key_entities memory;
             decs' =
               (if memory_type memory = ''solution''
                then decs @ map (\<lambda>point. memory_type memory @ '':'' @ point)
                                (drop (length points' - 3) points')
                else decs)
         in (points', ents', decs')))"

definition generate_summary ::
  "(string list \<Rightarrow> string list) \<Rightarrow> nat \<Rightarrow> real \<Rightarrow> memory_compressor \<Rightarrow> string \<Rightarrow>
   string list option \<Rightarrow> string \<times> memory_compressor" where
  \<comment> \<open>\<open>listing\<close> is the unspecified order in which Python lists the set of entities,
      \<open>now_ms\<close> the clock in milliseconds and \<open>now\<close> the instant of the time stamp\<close>
  "generate_summary listing now_ms now self sum_type mem_ids =
     (let memory_ids = (case mem_ids of None \<Rightarrow> recent_memories self | Some ids \<Rightarrow> ids);
          memories = List.map_filter (map_of (memory_compressor.compressed_memories self)) memory_ids
      in if memories = [] then ([], self)
         else
           (case foldl summary_step ([], [], []) memories of (points, ents, decs) \<Rightarrow>
              (let sum_id = ''summary_'' @ sum_type @ ''_'' @ str_nat now_ms;
                   summary =
                     \<lparr> summary_id = sum_id,
                       memory_summary.timestamp = now,
                       summary_type = sum_type,
                       key_points = take 10 points,
                       entities = take 15 (listing (remdups ents)),
                       patterns = [],
                       decisions = decs,
                       memory_summary.compressed_memories = memory_ids \<rparr>
               in (sum_id, self \<lparr> memory_summaries :=
                                     dict_set (memory_summaries self) sum_id summary \<rparr>))))"

section \<open>Example stores\<close>

definition no_entities :: "string \<Rightarrow> string \<Rightarrow> string list" where
  \<comment> \<open>the entity extraction on a text without quotes, backticks or capital letters\<close>
  "no_entities content mem_type = []"

definition store_one :: memory_compressor where
  \<comment> \<open>the default store after \<open>compress_memory("hello world", "generic")\<close>\<close>
  "store_one =
     snd (compress_memory no_entities ''mem_1'' 100 100 default_compressor
            ''hello world'' ''generic'' None)"

definition set_order :: "string list \<Rightarrow> string list" where
  \<comment> \<open>one order in which a set may be listed\<close>
  "set_order xs = xs"

definition store_with_summary :: memory_compressor where
  \<comment> \<open>\<open>store_one\<close> after \<open>generate_summary('session')\<close>\<close>
  "store_with_summary = snd (generate_summary set_order 42 100 store_one ''session'' None)"

definition store_two :: memory_compressor where
  \<comment> \<open>\<open>store_one\<close> after \<open>compress_memory("second note", "generic")\<close>\<close>
  "store_two =
     snd (compress_memory no_entities ''mem_2'' 101 101 store_one
            ''second note'' ''generic'' None)"

definition victims :: "real \<Rightarrow> memory_compressor \<Rightarrow> string list" where
  \<comment> \<open>the identifiers of \<open>memories_with_scores[:to_remove]\<close>, the entries the cleanup removes\<close>
  "victims t self =
     map snd (take (nat (int (length (compressed_memories self)) - max_memory_size self))
                (sort (memories_with_scores t self)))"

definition store_full :: memory_compressor where
  \<comment> \<open>a store of capacity 1 after \<open>compress_memory("hello world", "generic")\<close>\<close>
  "store_full =
     snd (compress_memory no_entities ''mem_1'' 100 100 (MemoryCompressor 1 0.7 0.5)
            ''hello world'' ''generic'' None)"

section \<open>Properties of the string primitives\<close>

lemma join_Cons: "join sep (x # xs) = (if xs = [] then x else x @ sep @ join sep xs)"
  by (cases xs) simp_all

lemma split_on_not_Nil: "split_on sep s \<noteq> []"
  by (induction s) (auto split: list.splits)

lemma split_on_no_sep: "w \<in> set (split_on sep s) \<Longrightarrow> sep \<notin> set w"
proof (induction s arbitrary: w)
  case Nil
  then show ?case by simp
next
  case (Cons c cs)
  obtain v vs where vs: "split_on sep cs = v # vs"
    using split_on_not_Nil [of sep cs] by (cases "split_on sep cs") auto
  show ?case
  proof (cases "c = sep")
    case True
    with Cons show ?thesis by auto
  next
    case False
    with Cons.prems vs have "w = c # v \<or> w \<in> set vs" by simp
    then show ?thesis
    proof
      assume "w = c # v"
      moreover have "sep \<notin> set v" using Cons.IH [of v] vs by simp
      ultimately show ?thesis using False by auto
    next
      assume "w \<in> set vs"
      then show ?thesis using Cons.IH [of w] vs by simp
    qed
  qed
qed

lemma set_strip: "set (strip s) \<subseteq> set s"
proof -
  have "set (dropWhile isspace (rev (dropWhile isspace s))) \<subseteq> set (rev (dropWhile isspace s))"
    by (rule set_dropWhileD [THEN subsetI])
  moreover have "set (dropWhile isspace s) \<subseteq> set s"
    by (rule set_dropWhileD [THEN subsetI])
  ultimately show ?thesis by (auto simp: strip_def)
qed

lemma split_join:
  "ls \<noteq> [] \<Longrightarrow> (\<And>l. l \<in> set ls \<Longrightarrow> sep \<notin> set l) \<Longrightarrow> split_on sep (join [sep] ls) = ls"
proof (induction ls)
  case Nil
  then show ?case by simp
next
  case (Cons x xs)
  have x: "sep \<notin> set x" using Cons.prems(2) by simp
  have plain: "split_on sep (y @ r) = (case split_on sep r of [] \<Rightarrow> [y] | w # ws \<Rightarrow> (y @ w) # ws)"
    if "sep \<notin> set y" for y r
    using that split_on_not_Nil [of sep r] by (induction y) (auto split: list.splits)
  show ?case
  proof (cases "xs = []")
    case True
    then show ?thesis using plain [OF x, of "[]"] by simp
  next
    case False
    then have IH: "split_on sep (join [sep] xs) = xs" using Cons by simp
    have "join [sep] (x # xs) = x @ sep # join [sep] xs" using False by (simp add: join_Cons)
    then show ?thesis using plain [OF x, of "sep # join [sep] xs"] IH by simp
  qed
qed

lemma digit_char_not_NL: "d < 10 \<Longrightarrow> digit_char d \<noteq> NL"
proof -
  assume "d < 10"
  then have "of_char (digit_char d) = (48 + d :: nat)" by (simp add: digit_char_def)
  then show ?thesis by auto
qed

lemma str_nat_no_NL: "NL \<notin> set (str_nat n)"
proof (induction n rule: str_nat.induct)
  case (1 n)
  show ?case
  proof (cases "n < 10")
    case True
    then show ?thesis using digit_char_not_NL [of n] by (simp add: str_nat.simps [of n])
  next
    case False
    then show ?thesis
      using 1 digit_char_not_NL [of "n mod 10"] by (simp add: str_nat.simps [of n])
  qed
qed

lemma omission_marker_no_NL: "NL \<notin> set (omission_marker n)"
  using str_nat_no_NL [of n] by (simp add: omission_marker_def)

lemma error_key_lines_no_NL: "l \<in> set (error_key_lines content) \<Longrightarrow> NL \<notin> set l"
proof -
  assume "l \<in> set (error_key_lines content)"
  then obtain w where w: "w \<in> set (split_on NL content)" and l: "l = strip w"
    by (auto simp: error_key_lines_def)
  from w have "NL \<notin> set w" by (rule split_on_no_sep)
  with l set_strip [of w] show ?thesis by auto
qed

section \<open>Error compression\<close>

text \<open>
  C4 (as the code has it): when no line of the input qualifies, the output of the error
  compression is the first 500 characters of the raw text followed by the three
  characters \<open>...\<close>, whatever the length of the raw text; the last 500 characters are
  not part of it, and a short text is not returned unchanged.
\<close>

theorem compress_error_fallback:
  "error_key_lines content = [] \<Longrightarrow> compress_error content = take 500 content @ ''...''"
  by (simp add: compress_error_def)

theorem compress_error_fallback_witness:
  "error_key_lines ''abc'' = [] \<and> compress_error ''abc'' = take 500 ''abc'' @ ''...''"
proof -
  have h: "error_key_lines ''abc'' = []" by code_simp
  show ?thesis using h compress_error_fallback [OF h] by simp
qed

theorem compress_error_fallback_counterexample:
  "error_key_lines ''abc'' = [] \<and> length ''abc'' \<le> 500 + 500 \<and>
   compress_error ''abc'' = ''abc...'' \<and> compress_error ''abc'' \<noteq> ''abc''"
  by code_simp

lemma compress_error_long:
  assumes "length (error_key_lines content) > 20"
  shows "compress_error content =
           join [NL] (take 10 (error_key_lines content) @
                      [omission_marker (length (error_key_lines content) - 20)] @
                      drop (length (error_key_lines content) - 10) (error_key_lines content)) \<and>
         split_on NL (compress_error content) =
           take 10 (error_key_lines content) @
           [omission_marker (length (error_key_lines content) - 20)] @
           drop (length (error_key_lines content) - 10) (error_key_lines content) \<and>
         length (split_on NL (compress_error content)) = 21"
proof -
  define ks where "ks = error_key_lines content"
  define out where "out = take 10 ks @ [omission_marker (length ks - 20)] @ drop (length ks - 10) ks"
  have n: "length ks > 20" using assms by (simp add: ks_def)
  have out_ne: "out \<noteq> []" by (simp add: out_def)
  have eq: "compress_error content = join [NL] out"
    using n by (simp add: compress_error_def ks_def [symmetric] out_def Let_def)
  have no_nl: "NL \<notin> set l" if "l \<in> set out" for l
  proof -
    from that have "l \<in> set (take 10 ks) \<or> l = omission_marker (length ks - 20) \<or>
        l \<in> set (drop (length ks - 10) ks)"
      by (auto simp: out_def)
    then show ?thesis
      using error_key_lines_no_NL [of l content] omission_marker_no_NL [of "length ks - 20"]
      by (auto simp: ks_def dest: in_set_takeD in_set_dropD)
  qed
  have sp: "split_on NL (join [NL] out) = out"
    using out_ne no_nl by (rule split_join)
  have len: "length out = 21" using n by (simp add: out_def)
  show ?thesis using eq sp len by (simp add: out_def ks_def)
qed


lemma traceback25_lines:
  "length (split_on NL traceback25) = 25 \<and> length (error_key_lines traceback25) = 25"
  by code_simp

text \<open>
  C5 (as the code has it): whenever more than 20 lines qualify, the output of the error
  compression consists of the first 10 qualifying lines, one omission-count marker line and
  the last 10 qualifying lines, which are 21 lines in all. In particular a 25-line traceback
  in which every line qualifies is compressed to 21 lines including the marker, not 22.
\<close>

theorem compress_error_truncates:
  assumes "length (error_key_lines content) > 20"
  shows "compress_error content =
           join [NL] (take 10 (error_key_lines content) @
                      [omission_marker (length (error_key_lines content) - 20)] @
                      drop (length (error_key_lines content) - 10) (error_key_lines content)) \<and>
         split_on NL (compress_error content) =
           take 10 (error_key_lines content) @
           [omission_marker (length (error_key_lines content) - 20)] @
           drop (length (error_key_lines content) - 10) (error_key_lines content) \<and>
         length (split_on NL (compress_error content)) = 21"
  using assms by (rule compress_error_long)

theorem compress_error_truncates_witness:
  "20 < length (error_key_lines traceback25) \<and>
   length (split_on NL (compress_error traceback25)) = 21"
proof -
  have h: "20 < length (error_key_lines traceback25)" using traceback25_lines by simp
  show ?thesis using h compress_error_truncates [OF h] by blast
qed

theorem compress_error_25_lines_counterexample:
  "length (split_on NL traceback25) = 25 \<and> length (error_key_lines traceback25) = 25 \<and>
   length (split_on NL (compress_error traceback25)) = 21 \<and>
   length (split_on NL (compress_error traceback25)) \<noteq> 22"
proof -
  have h: "20 < length (error_key_lines traceback25)" using traceback25_lines by simp
  have "length (split_on NL (compress_error traceback25)) = 21"
    using compress_error_long [OF h] by blast
  then show ?thesis using traceback25_lines by simp
qed

section \<open>Search returns entries without a hit\<close>

lemma positive_importance_passes:
  "0 < importance_score memory \<Longrightarrow> 0 < search_score query memory"
  by (simp add: search_score_def Let_def add_pos_nonneg add_nonneg_pos)

text \<open>
  C1 (the code at the failing input): the store holds one entry, ``hello world'', without
  entities; the query occurs neither in its compressed text nor in an entity, and the
  search returns the entry all the same, since the importance boost is added before the
  score is compared with 0.
\<close>

theorem search_returns_entry_without_hit:
  "map original_content (map snd (compressed_memories store_one)) = [''hello world''] \<and>
   contains (lower ''zzz-no-such-token'') (lower ''hello world'') = False \<and>
   map key_entities (map snd (compressed_memories store_one)) = [[]] \<and>
   map memory_id (search_memories store_one ''zzz-no-such-token'' None 10) = [''mem_1'']"
  by code_simp

section \<open>Compressing the empty string\<close>

text \<open>
  C2 (as the code has it): for every kind, the entry created from the empty string has
  compression ratio 1. Its compressed text is the empty string for the kind conversation
  and for every kind handled generically; for the kind code it is the annotation line
  \<open># Code compressed: 1 -> 0 lines\<close>, for the kind error it is \<open>...\<close> and for the kind
  solution it is one newline.
\<close>

theorem compress_empty:
  "compression_ratio (make_memory extract new_id now [] mem_type context) = 1 \<and>
   compressed_content (make_memory extract new_id now [] mem_type context) =
     (if mem_type = ''code'' then ''# Code compressed: 1 -> 0 lines''
      else if mem_type = ''error'' then ''...''
      else if mem_type = ''solution'' then [NL]
      else [])"
proof -
  have code: "compress_code [] = ''# Code compressed: 1 -> 0 lines''" by code_simp
  have err: "compress_error [] = ''...''" by code_simp
  have sol: "compress_solution [] = [NL]" by code_simp
  have conv: "compress_conversation [] = []" by code_simp
  have gen: "compress_generic [] = []" by code_simp
  show ?thesis
    using code err sol conv gen by (simp add: make_memory_def compress_by_type_def Let_def)
qed

theorem compress_empty_counterexample:
  "compressed_content (make_memory no_entities ''mem_1'' 100 [] ''code'' None) =
     ''# Code compressed: 1 -> 0 lines'' \<and>
   compressed_content (make_memory no_entities ''mem_1'' 100 [] ''error'' None) = ''...'' \<and>
   compressed_content (make_memory no_entities ''mem_1'' 100 [] ''solution'' None) = [NL] \<and>
   compressed_content (make_memory no_entities ''mem_1'' 100 [] ''code'' None) \<noteq> []"
  by code_simp

section \<open>Importance\<close>

lemma complexity_fold_lower:
  "(\<And>p w. (p, w) \<in> set xs \<Longrightarrow> 0 \<le> w) \<Longrightarrow>
   a \<le> foldl (\<lambda>total (pattern, weight).
                 total + min (real (findall_count pattern code) * weight) (1 / 2)) a xs"
proof (induction xs arbitrary: a)
  case Nil
  then show ?case by simp
next
  case (Cons x xs)
  obtain p w where x: "x = (p, w)" by (cases x)
  have w: "0 \<le> w" using Cons.prems [of p w] x by simp
  have "a \<le> a + min (real (findall_count p code) * w) (1 / 2)" using w by simp
  also have "\<dots> \<le> foldl (\<lambda>total (pattern, weight).
                 total + min (real (findall_count pattern code) * weight) (1 / 2))
               (a + min (real (findall_count p code) * w) (1 / 2)) xs"
    using Cons.prems by (intro Cons.IH) auto
  finally show ?case by (simp add: x)
qed

lemma code_complexity_range:
  "0 \<le> calculate_code_complexity code \<and> calculate_code_complexity code \<le> 1"
proof -
  have "0 \<le> foldl (\<lambda>total (pattern, weight).
                 total + min (real (findall_count pattern code) * weight) (1 / 2))
               0 complexity_indicators"
    by (rule complexity_fold_lower) (auto simp: complexity_indicators_def)
  then show ?thesis by (simp add: calculate_code_complexity_def Let_def)
qed

lemma importance_sum:
  "calculate_importance content mem_type context =
     0.2 * min (real (length content) / 1000) 1 +
     0.3 * min (real (length (filter (\<lambda>keyword. contains keyword (lower content))
                  [''error'', ''exception'', ''failed'', ''traceback'', ''bug'', ''fix''])) / 6) 1 +
     (if mem_type = ''code'' then 0.2 * calculate_code_complexity content else 0) +
     (case context of
        None \<Rightarrow> 0
      | Some ctx \<Rightarrow>
          (case map_of ctx ''relevance'' of None \<Rightarrow> 0 | Some relevance \<Rightarrow> 0.2 * relevance)) +
     0.1"
proof -
  have kw: "filter (\<lambda>keyword. contains (lower keyword) (lower content)) error_keywords =
        filter (\<lambda>keyword. contains keyword (lower content)) error_keywords"
  proof (rule filter_cong [OF refl])
    fix k assume "k \<in> set error_keywords"
    then have "lower k \<in> set (map lower error_keywords)" by simp
    then have "lower k = k"
      using \<open>k \<in> set error_keywords\<close> by (auto simp: error_keywords_def) code_simp+
    then show "contains (lower k) (lower content) = contains k (lower content)" by simp
  qed
  show ?thesis
    unfolding calculate_importance_def kw
    by (simp add: error_keywords_def Let_def split: option.splits)
qed


text \<open>
  C6 (as the code has it): the importance score is the sum of the weighted factors that
  are present: 0.2 times the length factor \<open>min(len(text)/1000, 1)\<close>, 0.3 times the
  fraction of the six error keywords found in the lower-cased text (capped at 1), 0.2
  times the code complexity only for the kind code, 0.2 times the relevance only when the
  context has that key, and the constant 0.1. The length factor, the keyword fraction and
  the code complexity lie in \<open>[0, 1]\<close> before weighting; the relevance is not normalized:
  it is multiplied as the caller gives it, whatever its value, and the sum is not capped.
\<close>

theorem importance_is_weighted_sum:
  "calculate_importance content mem_type context =
     0.2 * min (real (length content) / 1000) 1 +
     0.3 * min (real (length (filter (\<lambda>keyword. contains keyword (lower content))
                  [''error'', ''exception'', ''failed'', ''traceback'', ''bug'', ''fix''])) / 6) 1 +
     (if mem_type = ''code'' then 0.2 * calculate_code_complexity content else 0) +
     (case context of
        None \<Rightarrow> 0
      | Some ctx \<Rightarrow>
          (case map_of ctx ''relevance'' of None \<Rightarrow> 0 | Some relevance \<Rightarrow> 0.2 * relevance)) +
     0.1 \<and>
   0 \<le> min (real (length content) / 1000) 1 \<and> min (real (length content) / 1000) 1 \<le> 1 \<and>
   real (length (filter (\<lambda>keyword. contains keyword (lower content))
           [''error'', ''exception'', ''failed'', ''traceback'', ''bug'', ''fix''])) / 6 \<le> 1 \<and>
   0 \<le> calculate_code_complexity content \<and> calculate_code_complexity content \<le> 1"
proof -
  have "length (filter (\<lambda>keyword. contains keyword (lower content))
           [''error'', ''exception'', ''failed'', ''traceback'', ''bug'', ''fix'']) \<le> 6"
    using length_filter_le [of "\<lambda>keyword. contains keyword (lower content)"
        "[''error'', ''exception'', ''failed'', ''traceback'', ''bug'', ''fix'']"]
    by simp
  then have "real (length (filter (\<lambda>keyword. contains keyword (lower content))
           [''error'', ''exception'', ''failed'', ''traceback'', ''bug'', ''fix''])) / 6 \<le> 1"
    by simp
  then show ?thesis
    using importance_sum [of content mem_type "context"] code_complexity_range [of content]
    by simp
qed

theorem importance_relevance_unclamped_counterexample:
  "map_of [(''relevance'', 4 :: real)] ''relevance'' = Some 4 \<and> \<not> (4 :: real) \<le> 1 \<and>
   calculate_importance ''x'' ''generic'' (Some [(''relevance'', 4)]) = 0.9002 \<and>
   calculate_importance ''x'' ''generic'' (Some [(''relevance'', 4)]) \<noteq>
     0.2 * (1 / 1000) + 0.3 * 0 + 0.2 * min 4 1 + 0.1 \<and>
   map_of [(''relevance'', - 1 :: real)] ''relevance'' = Some (- 1) \<and> \<not> (0 :: real) \<le> - 1 \<and>
   calculate_importance [] ''generic'' (Some [(''relevance'', - 1)]) = - 0.1"
  by code_simp



section \<open>Reset\<close>

text \<open>
  C9 (as the code has it): the reset operation replaces the compressor by a fresh one, so
  it clears all entries, the recent ring, the running totals and also the stored
  summaries: after reset no entry and no summary is retrievable by any id.
\<close>

theorem reset_clears_summaries:
  "compressed_memories (fst (reset_memory_compression self)) = [] \<and>
   recent_memories (fst (reset_memory_compression self)) = [] \<and>
   total_original_size (fst (reset_memory_compression self)) = 0 \<and>
   total_compressed_size (fst (reset_memory_compression self)) = 0 \<and>
   compression_count (fst (reset_memory_compression self)) = 0 \<and>
   memory_summaries (fst (reset_memory_compression self)) = [] \<and>
   get_memory (fst (reset_memory_compression self)) mem_id = None \<and>
   get_summary (fst (reset_memory_compression self)) sum_id = None"
  by (simp add: reset_memory_compression_def default_compressor_def MemoryCompressor_def
      get_memory_def get_summary_def)

theorem reset_drops_summary_counterexample:
  "map_option summary_id (get_summary store_with_summary ''summary_session_42'') =
     Some ''summary_session_42'' \<and>
   get_summary (fst (reset_memory_compression store_with_summary)) ''summary_session_42'' =
     None"
  by code_simp

section \<open>Ranked search\<close>

lemma scored_results:
  "map snd (filter (\<lambda>(score, memory). score > 0)
              (map (\<lambda>memory. (search_score query memory, memory)) candidates)) =
   filter (\<lambda>memory. 0 < search_score query memory) candidates"
  by (induction candidates) auto

lemma results_scores:
  "p \<in> set (search_results self query tf) \<Longrightarrow> fst p = search_score query (snd p)"
  by (auto simp: search_results_def Let_def)

lemma search_results_mset:
  "mset (map snd (search_results self query tf)) =
   mset (filter (\<lambda>memory. \<not> type_filtered tf memory \<and> 0 < search_score query memory)
           (map snd (compressed_memories self)))"
proof -
  have "mset (map snd (search_results self query tf)) =
        image_mset snd (mset (search_results self query tf))"
    by simp
  also have "\<dots> = mset (map snd (filter (\<lambda>(score, memory). score > 0)
              (map (\<lambda>memory. (search_score query memory, memory))
                 (filter (\<lambda>memory. \<not> type_filtered tf memory)
                    (map snd (compressed_memories self))))))"
    by (simp add: search_results_def Let_def)
  also have "\<dots> = mset (filter (\<lambda>memory. \<not> type_filtered tf memory \<and> 0 < search_score query memory)
           (map snd (compressed_memories self)))"
    unfolding scored_results by (simp add: conj_commute)
  finally show ?thesis .
qed

lemma search_results_sorted:
  "sorted_wrt (\<lambda>a b. search_score query b \<le> search_score query a)
     (map snd (search_results self query tf))"
proof -
  have "sorted (map (\<lambda>(score, memory). - score) (search_results self query tf))"
    unfolding search_results_def Let_def by (rule sorted_sort_key)
  then have "sorted_wrt (\<lambda>p q. - fst p \<le> - fst q) (search_results self query tf)"
    by (simp add: sorted_map case_prod_unfold)
  then have "sorted_wrt (\<lambda>p q. search_score query (snd q) \<le> search_score query (snd p))
               (search_results self query tf)"
  proof (rule sorted_wrt_mono_rel [rotated])
    fix p q
    assume "p \<in> set (search_results self query tf)" "q \<in> set (search_results self query tf)"
      and "- fst p \<le> - fst q"
    then show "search_score query (snd q) \<le> search_score query (snd p)"
      using results_scores [of p self query tf] results_scores [of q self query tf] by simp
  qed
  then show ?thesis by (simp add: sorted_wrt_map)
qed

lemma store_two_search:
  "map memory_id (map snd (compressed_memories store_two)) = [''mem_1'', ''mem_2''] \<and>
   map memory_id (search_memories store_two ''hello'' None 10) = [''mem_1'', ''mem_2''] \<and>
   map memory_id (search_memories store_two ''hello'' None 1) = [''mem_1''] \<and>
   map memory_id (search_memories store_two ''hello'' None (- 1)) = [''mem_1'']"
  by code_simp

text \<open>
  C8 (as the code has it): for every query, optional kind filter and non-negative limit,
  search keeps exactly the entries that pass the kind filter and whose total score is
  greater than 0, ranks them non-increasing by the computed score and returns the first
  \<open>limit\<close> of that ranking, so at most \<open>limit\<close> entries. (For a negative limit the slice
  drops entries from the end of the ranking instead.)
\<close>

theorem search_keeps_positive_sorted_limited:
  assumes "0 \<le> limit"
  shows "mset (map snd (search_results self query tf)) =
           mset (filter (\<lambda>memory. \<not> type_filtered tf memory \<and> 0 < search_score query memory)
                   (map snd (compressed_memories self))) \<and>
         sorted_wrt (\<lambda>a b. search_score query b \<le> search_score query a)
           (map snd (search_results self query tf)) \<and>
         search_memories self query tf limit =
           take (nat limit) (map snd (search_results self query tf)) \<and>
         sorted_wrt (\<lambda>a b. search_score query b \<le> search_score query a)
           (search_memories self query tf limit) \<and>
         int (length (search_memories self query tf limit)) \<le> limit"
proof -
  have eq: "search_memories self query tf limit =
           take (nat limit) (map snd (search_results self query tf))"
    using assms by (simp add: search_memories_def slice_to_def take_map)
  have srt: "sorted_wrt (\<lambda>a b. search_score query b \<le> search_score query a)
           (search_memories self query tf limit)"
    unfolding eq using search_results_sorted [of query self tf] by (rule sorted_wrt_take)
  have len: "int (length (search_memories self query tf limit)) \<le> limit"
    unfolding eq using assms by simp
  show ?thesis using search_results_mset search_results_sorted eq srt len by blast
qed

theorem search_keeps_positive_sorted_limited_witness:
  "(0 :: int) \<le> 1 \<and>
   search_memories store_two ''hello'' None 1 =
     take (nat 1) (map snd (search_results store_two ''hello'' None)) \<and>
   int (length (search_memories store_two ''hello'' None 1)) \<le> 1"
  using search_keeps_positive_sorted_limited
    [where limit = 1 and self = store_two and query = "''hello''" and tf = None]
  by simp

theorem search_negative_limit_counterexample:
  "map memory_id (search_memories store_two ''hello'' None (- 1)) = [''mem_1''] \<and>
   \<not> int (length (search_memories store_two ''hello'' None (- 1))) \<le> - 1"
proof -
  have m: "map memory_id (search_memories store_two ''hello'' None (- 1)) = [''mem_1'']"
    using store_two_search by blast
  then have "length (map memory_id (search_memories store_two ''hello'' None (- 1))) = 1"
    by simp
  then have "length (search_memories store_two ''hello'' None (- 1)) = 1" by simp
  then show ?thesis using m by simp
qed

section \<open>Eviction\<close>

lemma dict_del_absent: "map_of d k = None \<Longrightarrow> dict_del d k = d"
  by (induction d) (auto simp: dict_del_def split: if_splits)

lemma remove_memory_store:
  "compressed_memories (remove_memory self k) =
   filter (\<lambda>e. fst e \<noteq> k) (compressed_memories self)"
proof (cases "map_of (compressed_memories self) k")
  case None
  then show ?thesis
    using dict_del_absent [of "compressed_memories self" k]
    by (simp add: remove_memory_def dict_del_def case_prod_unfold)
next
  case (Some m)
  then show ?thesis by (simp add: remove_memory_def dict_del_def case_prod_unfold)
qed

lemma filter_key_distinct:
  "distinct (map fst d) \<Longrightarrow>
   filter (\<lambda>e. fst e = k) d = (case map_of d k of None \<Rightarrow> [] | Some v \<Rightarrow> [(k, v)])"
proof (induction d)
  case Nil
  then show ?case by simp
next
  case (Cons p d)
  obtain k' v' where p: "p = (k', v')" by (cases p)
  show ?case
  proof (cases "k' = k")
    case True
    with Cons.prems p have "k \<notin> fst ` set d" by auto
    then have "filter (\<lambda>e. fst e = k) d = []" by (auto simp: filter_empty_conv)
    with True p show ?thesis by simp
  next
    case False
    with Cons p show ?thesis by simp
  qed
qed

lemma remove_memory_original:
  "distinct (map fst (compressed_memories self)) \<Longrightarrow>
   total_original_size (remove_memory self k) =
   total_original_size self -
   sum_list (map (\<lambda>e. int (length (original_content (snd e))))
               (filter (\<lambda>e. fst e = k) (compressed_memories self)))"
  by (simp add: filter_key_distinct remove_memory_def split: option.splits)

lemma remove_memory_compressed:
  "distinct (map fst (compressed_memories self)) \<Longrightarrow>
   total_compressed_size (remove_memory self k) =
   total_compressed_size self -
   sum_list (map (\<lambda>e. int (length (compressed_content (snd e))))
               (filter (\<lambda>e. fst e = k) (compressed_memories self)))"
  by (simp add: filter_key_distinct remove_memory_def split: option.splits)

lemma sum_filter_split:
  "sum_list (map (f :: 'k \<times> 'v \<Rightarrow> int) (filter (\<lambda>e. fst e \<in> set (k # ks)) d)) =
   sum_list (map f (filter (\<lambda>e. fst e = k) d)) +
   sum_list (map f (filter (\<lambda>e. fst e \<in> set ks) (filter (\<lambda>e. fst e \<noteq> k) d)))"
  by (induction d) auto

lemma remove_all:
  "distinct (map fst (compressed_memories self)) \<Longrightarrow>
   compressed_memories (foldl remove_memory self ks) =
     filter (\<lambda>e. fst e \<notin> set ks) (compressed_memories self) \<and>
   total_original_size (foldl remove_memory self ks) =
     total_original_size self -
     sum_list (map (\<lambda>e. int (length (original_content (snd e))))
                 (filter (\<lambda>e. fst e \<in> set ks) (compressed_memories self))) \<and>
   total_compressed_size (foldl remove_memory self ks) =
     total_compressed_size self -
     sum_list (map (\<lambda>e. int (length (compressed_content (snd e))))
                 (filter (\<lambda>e. fst e \<in> set ks) (compressed_memories self)))"
proof (induction ks arbitrary: self)
  case Nil
  then show ?case by simp
next
  case (Cons k ks)
  let ?s = "remove_memory self k"
  have d: "distinct (map fst (compressed_memories ?s))"
    using Cons.prems by (simp add: remove_memory_store distinct_map_filter)
  note IH = Cons.IH [OF d]
  have st: "compressed_memories (foldl remove_memory self (k # ks)) =
     filter (\<lambda>e. fst e \<notin> set (k # ks)) (compressed_memories self)"
    using IH by (simp add: remove_memory_store conj_commute)
  have o: "total_original_size (foldl remove_memory self (k # ks)) =
     total_original_size self -
     sum_list (map (\<lambda>e. int (length (original_content (snd e))))
                 (filter (\<lambda>e. fst e \<in> set (k # ks)) (compressed_memories self)))"
    using IH remove_memory_original [OF Cons.prems, of k]
    unfolding sum_filter_split by (simp add: remove_memory_store)
  have c: "total_compressed_size (foldl remove_memory self (k # ks)) =
     total_compressed_size self -
     sum_list (map (\<lambda>e. int (length (compressed_content (snd e))))
                 (filter (\<lambda>e. fst e \<in> set (k # ks)) (compressed_memories self)))"
    using IH remove_memory_compressed [OF Cons.prems, of k]
    unfolding sum_filter_split by (simp add: remove_memory_store)
  show ?case using st o c by blast
qed


lemma scores_keys: "map snd (memories_with_scores t self) = map fst (compressed_memories self)"
  by (simp add: memories_with_scores_def case_prod_unfold comp_def)

lemma cleanup_as_fold:
  "max_memory_size self < int (length (compressed_memories self)) \<Longrightarrow>
   cleanup_old_memories t self = foldl remove_memory self (victims t self)"
  by (simp add: cleanup_old_memories_def victims_def slice_to_def Let_def)

lemma victims_distinct:
  "distinct (map fst (compressed_memories self)) \<Longrightarrow> distinct (victims t self)"
proof -
  assume d: "distinct (map fst (compressed_memories self))"
  have "mset (map snd (sort (memories_with_scores t self))) =
        mset (map fst (compressed_memories self))"
    using scores_keys [of t self] by (metis mset_map mset_sort)
  then have "distinct (map snd (sort (memories_with_scores t self)))"
    using d mset_eq_imp_distinct_iff by blast
  then show ?thesis
    unfolding victims_def take_map [symmetric] by (rule distinct_take)
qed

lemma victims_keys: "set (victims t self) \<subseteq> set (map fst (compressed_memories self))"
proof -
  have "set (victims t self) \<subseteq> set (map snd (sort (memories_with_scores t self)))"
    unfolding victims_def take_map [symmetric] by (rule set_take_subset)
  also have "\<dots> = set (map fst (compressed_memories self))"
    using scores_keys [of t self] by (metis set_map set_sort)
  finally show ?thesis .
qed

lemma victims_length:
  assumes "0 \<le> max_memory_size self"
  shows "length (victims t self) =
         nat (int (length (compressed_memories self)) - max_memory_size self)"
proof -
  have "length (sort (memories_with_scores t self)) = length (compressed_memories self)"
    by (simp add: memories_with_scores_def)
  then show ?thesis using assms by (simp add: victims_def)
qed

lemma survivors_length:
  assumes d: "distinct (map fst (compressed_memories self))"
    and m: "0 \<le> max_memory_size self"
    and ex: "max_memory_size self < int (length (compressed_memories self))"
  shows "int (length (filter (\<lambda>e. fst e \<notin> set (victims t self)) (compressed_memories self))) =
         max_memory_size self"
proof -
  let ?cm = "compressed_memories self"
  let ?V = "set (victims t self)"
  have "length (filter (\<lambda>e. fst e \<in> ?V) ?cm) = length (filter (\<lambda>k. k \<in> ?V) (map fst ?cm))"
    by (simp add: filter_map comp_def)
  also have "\<dots> = card (set (filter (\<lambda>k. k \<in> ?V) (map fst ?cm)))"
  proof -
    have "distinct (filter (\<lambda>k. k \<in> ?V) (map fst ?cm))" using d by (rule distinct_filter)
    then show ?thesis by (rule distinct_card [symmetric])
  qed
  also have "set (filter (\<lambda>k. k \<in> ?V) (map fst ?cm)) = ?V"
    using victims_keys [of t self] by auto
  also have "card ?V = length (victims t self)"
    using victims_distinct [OF d, of t] by (simp add: distinct_card)
  finally have in_len: "length (filter (\<lambda>e. fst e \<in> ?V) ?cm) =
      nat (int (length ?cm) - max_memory_size self)"
    using victims_length [OF m, of t] by simp
  have "length (filter (\<lambda>e. fst e \<in> ?V) ?cm) + length (filter (\<lambda>e. fst e \<notin> ?V) ?cm) =
        length ?cm"
    by (rule sum_length_filter_compl)
  then show ?thesis using in_len m ex by linarith
qed

lemma victims_dominated:
  assumes d: "distinct (map fst (compressed_memories self))"
    and e: "e \<in> set (compressed_memories self)" "fst e \<in> set (victims t self)"
    and v: "v \<in> set (compressed_memories self)" "fst v \<notin> set (victims t self)"
  shows "combined_score t (snd e) \<le> combined_score t (snd v)"
proof -
  let ?srt = "sort (memories_with_scores t self)"
  let ?k = "nat (int (length (compressed_memories self)) - max_memory_size self)"
  have pairs: "set ?srt = (\<lambda>e. (combined_score t (snd e), fst e)) ` set (compressed_memories self)"
    by (auto simp: memories_with_scores_def case_prod_unfold)
  from e(2) obtain p where p: "p \<in> set (take ?k ?srt)" "snd p = fst e"
    by (auto simp: victims_def)
  from p(1) have "p \<in> set ?srt" by (rule in_set_takeD)
  with pairs obtain e' where e': "e' \<in> set (compressed_memories self)"
    "p = (combined_score t (snd e'), fst e')" by auto
  have "e' = e"
    using d e(1) e' p(2) eq_key_imp_eq_value [of "compressed_memories self" "fst e" "snd e'" "snd e"]
    by (cases e, cases e') auto
  with e' p(1) have pe: "(combined_score t (snd e), fst e) \<in> set (take ?k ?srt)" by simp
  have "(combined_score t (snd v), fst v) \<in> set ?srt" using v(1) pairs by auto
  then have "(combined_score t (snd v), fst v) \<in> set (take ?k ?srt) \<union> set (drop ?k ?srt)"
    by (metis append_take_drop_id set_append)
  moreover have "(combined_score t (snd v), fst v) \<notin> set (take ?k ?srt)"
  proof
    assume "(combined_score t (snd v), fst v) \<in> set (take ?k ?srt)"
    then have "fst v \<in> set (victims t self)"
      unfolding victims_def by (metis image_eqI set_map snd_conv)
    with v(2) show False by simp
  qed
  ultimately have pv: "(combined_score t (snd v), fst v) \<in> set (drop ?k ?srt)" by simp
  have "sorted (take ?k ?srt @ drop ?k ?srt)" by simp
  then have "(combined_score t (snd e), fst e) \<le> (combined_score t (snd v), fst v)"
    using pe pv unfolding sorted_append by blast
  then show ?thesis by (auto simp: less_eq_prod_def)
qed

lemma dict_set_keys:
  "map fst (dict_set d k v) = (if k \<in> set (map fst d) then map fst d else map fst d @ [k])"
proof (induction d)
  case Nil
  then show ?case by simp
next
  case (Cons p d)
  obtain k' v' where p: "p = (k', v')" by (cases p)
  show ?case using Cons.IH p by (cases "k' = k") auto
qed

lemma store_memory_distinct:
  "distinct (map fst (compressed_memories self)) \<Longrightarrow>
   distinct (map fst (compressed_memories (store_memory self memory)))"
  by (simp add: store_memory_def dict_set_keys)


lemma store_full_insert:
  "distinct (map fst (compressed_memories store_full)) \<and>
   0 \<le> max_memory_size store_full \<and>
   max_memory_size store_full <
     int (length (compressed_memories (store_memory store_full
            (make_memory no_entities ''mem_2'' 101 ''fix the error'' ''generic'' None)))) \<and>
   map fst (compressed_memories (snd (compress_memory no_entities ''mem_2'' 101 101 store_full
            ''fix the error'' ''generic'' None))) = [''mem_2'']"
  by code_simp

text \<open>
  C3 (as the code has it): for every store with a non-negative \<open>max_size\<close> (its entries
  are a dictionary, so their ids are distinct), when an insert makes the entry count
  exceed \<open>max_size\<close> the eviction runs and afterwards the store holds exactly \<open>max_size\<close>
  entries; the survivors are the entries that were not evicted; at eviction time every
  evicted entry's combined score \<open>importance * 0.7 + recency * 0.3\<close>, with
  \<open>recency = max(0, 1 - (now - created_at) / 7 days)\<close>, is less than or equal to every
  surviving entry's; and the running totals of original and compressed lengths are
  decremented by the lengths of the evicted entries' original and compressed texts.
  (With a negative \<open>max_size\<close> the eviction empties the store.)
\<close>

theorem eviction_after_insert:
  fixes self :: memory_compressor and entities_of new_id now current_time content mem_type ctx
  defines "s1 \<equiv> store_memory self (make_memory entities_of new_id now content mem_type ctx)"
  defines "s2 \<equiv>
    snd (compress_memory entities_of new_id now current_time self content mem_type ctx)"
  defines "evicted \<equiv>
    filter (\<lambda>e. e \<notin> set (compressed_memories s2)) (compressed_memories s1)"
  assumes d: "distinct (map fst (compressed_memories self))"
    and m: "0 \<le> max_memory_size self"
    and ex: "max_memory_size self < int (length (compressed_memories s1))"
  shows "s2 = cleanup_old_memories current_time s1 \<and>
         int (length (compressed_memories s2)) = max_memory_size self \<and>
         compressed_memories s2 =
           filter (\<lambda>e. e \<notin> set evicted) (compressed_memories s1) \<and>
         int (length evicted) = int (length (compressed_memories s1)) - max_memory_size self \<and>
         list_all (\<lambda>e. list_all (\<lambda>v.
             importance_score (snd e) * 0.7 +
             max 0 (1 - (current_time - timestamp (snd e)) / (7 * 24 * 3600)) * 0.3 \<le>
             importance_score (snd v) * 0.7 +
             max 0 (1 - (current_time - timestamp (snd v)) / (7 * 24 * 3600)) * 0.3)
           (compressed_memories s2)) evicted \<and>
         total_original_size s2 =
           total_original_size s1 -
           sum_list (map (\<lambda>e. int (length (original_content (snd e)))) evicted) \<and>
         total_compressed_size s2 =
           total_compressed_size s1 -
           sum_list (map (\<lambda>e. int (length (compressed_content (snd e)))) evicted)"
proof -
  let ?V = "set (victims current_time s1)"
  let ?cm = "compressed_memories s1"
  have max1: "max_memory_size s1 = max_memory_size self"
    by (simp add: s1_def store_memory_def)
  have d1: "distinct (map fst ?cm)"
    unfolding s1_def using d by (rule store_memory_distinct)
  have ex1: "max_memory_size s1 < int (length ?cm)" using ex max1 by simp
  have m1: "0 \<le> max_memory_size s1" using m max1 by simp
  have s2: "s2 = cleanup_old_memories current_time s1"
    using ex1 by (simp add: s2_def s1_def compress_memory_def Let_def)
  then have fold: "s2 = foldl remove_memory s1 (victims current_time s1)"
    using cleanup_as_fold [OF ex1] by simp
  note ra = remove_all [OF d1, of "victims current_time s1", folded fold]
  have cm2: "compressed_memories s2 = filter (\<lambda>e. fst e \<notin> ?V) ?cm" using ra by blast
  have ev: "evicted = filter (\<lambda>e. fst e \<in> ?V) ?cm"
    unfolding evicted_def cm2 by (rule filter_cong) auto
  have surv: "compressed_memories s2 = filter (\<lambda>e. e \<notin> set evicted) ?cm"
    unfolding ev cm2 by (rule filter_cong) auto
  have len2: "int (length (compressed_memories s2)) = max_memory_size self"
    unfolding cm2 using survivors_length [OF d1 m1 ex1, of current_time] max1 by simp
  have "length (filter (\<lambda>e. fst e \<in> ?V) ?cm) + length (filter (\<lambda>e. fst e \<notin> ?V) ?cm) =
        length ?cm"
    by (rule sum_length_filter_compl)
  then have lenev: "int (length evicted) = int (length ?cm) - max_memory_size self"
    using len2 unfolding ev cm2 by linarith
  have dom: "list_all (\<lambda>e. list_all (\<lambda>v. combined_score current_time (snd e) \<le>
                                        combined_score current_time (snd v))
                              (compressed_memories s2)) evicted"
    unfolding list_all_iff ev cm2
    using victims_dominated [OF d1, of _ current_time] by auto
  have formula: "list_all (\<lambda>e. list_all (\<lambda>v.
             importance_score (snd e) * 0.7 +
             max 0 (1 - (current_time - timestamp (snd e)) / (7 * 24 * 3600)) * 0.3 \<le>
             importance_score (snd v) * 0.7 +
             max 0 (1 - (current_time - timestamp (snd v)) / (7 * 24 * 3600)) * 0.3)
           (compressed_memories s2)) evicted"
    using dom by (simp add: combined_score_def recency_score_def)
  show ?thesis using s2 len2 surv lenev formula ra unfolding ev [symmetric] by blast
qed

theorem eviction_after_insert_witness:
  "distinct (map fst (compressed_memories store_full)) \<and>
   0 \<le> max_memory_size store_full \<and>
   max_memory_size store_full <
     int (length (compressed_memories (store_memory store_full
            (make_memory no_entities ''mem_2'' 101 ''fix the error'' ''generic'' None)))) \<and>
   int (length (compressed_memories (snd (compress_memory no_entities ''mem_2'' 101 101
            store_full ''fix the error'' ''generic'' None)))) = max_memory_size store_full"
proof -
  have h1: "distinct (map fst (compressed_memories store_full))"
    and h2: "0 \<le> max_memory_size store_full"
    and h3: "max_memory_size store_full <
     int (length (compressed_memories (store_memory store_full
            (make_memory no_entities ''mem_2'' 101 ''fix the error'' ''generic'' None))))"
    using store_full_insert by blast+
  show ?thesis using h1 h2 h3 eviction_after_insert [OF h1 h2 h3, of 101] by blast
qed

theorem eviction_negative_capacity_counterexample:
  "max_memory_size (MemoryCompressor (- 1) 0.7 0.5) <
     int (length (compressed_memories (store_memory (MemoryCompressor (- 1) 0.7 0.5)
            (make_memory no_entities ''mem_1'' 100 ''hello world'' ''generic'' None)))) \<and>
   length (compressed_memories (snd (compress_memory no_entities ''mem_1'' 100 100
            (MemoryCompressor (- 1) 0.7 0.5) ''hello world'' ''generic'' None))) = 0 \<and>
   int (length (compressed_memories (snd (compress_memory no_entities ''mem_1'' 100 100
            (MemoryCompressor (- 1) 0.7 0.5) ''hello world'' ''generic'' None)))) \<noteq>
     max_memory_size (MemoryCompressor (- 1) 0.7 0.5)"
  by code_simp

section \<open>Compressed text is never empty\<close>

lemma join_has_nonempty: "x \<in> set xs \<Longrightarrow> x \<noteq> [] \<Longrightarrow> join sep xs \<noteq> []"
  by (induction sep xs rule: join.induct) auto

lemma join_two: "2 \<le> length xs \<Longrightarrow> sep \<noteq> [] \<Longrightarrow> join sep xs \<noteq> []"
  by (induction sep xs rule: join.induct) auto

lemma split_on_single: "sep \<notin> set s \<Longrightarrow> split_on sep s = [s]"
  by (induction s) auto

lemma split_on_many: "sep \<in> set s \<Longrightarrow> 2 \<le> length (split_on sep s)"
proof (induction s)
  case Nil
  then show ?case by simp
next
  case (Cons c cs)
  obtain w ws where ws: "split_on sep cs = w # ws"
    using split_on_not_Nil [of sep cs] by (cases "split_on sep cs") auto
  show ?case
  proof (cases "c = sep")
    case True
    then show ?thesis using ws by simp
  next
    case False
    with Cons.prems have "sep \<in> set cs" by simp
    then have "2 \<le> length (split_on sep cs)" by (rule Cons.IH)
    then show ?thesis using False ws by simp
  qed
qed

lemma join_split_nonempty:
  assumes "content \<noteq> []" and "sep \<noteq> []"
  shows "join sep (split_on c content) \<noteq> []"
proof (cases "c \<in> set content")
  case True
  then show ?thesis using split_on_many [of c content] assms(2) by (intro join_two)
next
  case False
  then show ?thesis using assms(1) by (simp add: split_on_single)
qed

lemma code_line_kept_nonempty: "code_line_kept l \<Longrightarrow> l \<noteq> []"
  by (auto simp: code_line_kept_def)

lemma error_line_kept_nonempty: "error_line_kept l \<Longrightarrow> l \<noteq> []"
proof
  assume k: "error_line_kept l" and "l = []"
  then have "error_line_kept []" by simp
  then show False
    by (simp add: error_line_kept_def error_line_keywords_def lower_def error_class_at_def)
qed

lemma solution_line_kept_nonempty: "solution_line_kept l \<Longrightarrow> l \<noteq> []"
proof
  assume k: "solution_line_kept l" and "l = []"
  then have "solution_line_kept []" by simp
  then show False
    by (simp add: solution_line_kept_def action_words_def lower_def re_list_item_def)
qed

lemma compress_conversation_nonempty:
  "content \<noteq> [] \<Longrightarrow> compress_conversation content \<noteq> []"
proof -
  assume ne: "content \<noteq> []"
  show ?thesis
  proof (cases "10 < length (split_on (CHR ''.'') content)")
    case True
    then show ?thesis
      by (simp add: compress_conversation_def Let_def join_has_nonempty [of "''[...]''"])
  next
    case False
    then show ?thesis
      using join_split_nonempty [OF ne, of "''. ''" "CHR ''.''"]
      by (simp add: compress_conversation_def Let_def)
  qed
qed

lemma compress_code_nonempty: "compress_code code \<noteq> []"
proof -
  let ?lines = "split_on NL code"
  let ?kept = "filter code_line_kept (map strip ?lines)"
  show ?thesis
  proof (cases "length ?kept * 2 < length ?lines")
    case True
    then show ?thesis
      by (simp add: compress_code_def Let_def join_Cons)
  next
    case False
    have "0 < length ?lines"
      using split_on_not_Nil [of NL code] by (rule length_greater_0_conv [THEN iffD2])
    with False have "0 < length ?kept" by linarith
    then have "?kept \<noteq> []" by (rule length_greater_0_conv [THEN iffD1])
    then obtain l where l: "l \<in> set ?kept" by (cases ?kept) auto
    then have "l \<noteq> []" using code_line_kept_nonempty by auto
    with l have "join [NL] ?kept \<noteq> []" by (rule join_has_nonempty)
    then show ?thesis using False by (simp add: compress_code_def Let_def)
  qed
qed

lemma compress_error_nonempty: "compress_error content \<noteq> []"
proof -
  let ?ks = "error_key_lines content"
  let ?out = "if 20 < length ?ks
              then take 10 ?ks @ [omission_marker (length ?ks - 20)] @ drop (length ?ks - 10) ?ks
              else ?ks"
  show ?thesis
  proof (cases "?out = []")
    case True
    then show ?thesis by (simp add: compress_error_def Let_def)
  next
    case False
    have "\<exists>l \<in> set ?out. l \<noteq> []"
    proof (cases "20 < length ?ks")
      case True
      then show ?thesis by (simp add: omission_marker_def)
    next
      case short: False
      with False obtain l where "l \<in> set ?ks" by (cases ?ks) auto
      moreover from this have "l \<noteq> []"
        using error_line_kept_nonempty by (auto simp: error_key_lines_def)
      ultimately show ?thesis using short by auto
    qed
    then have "join [NL] ?out \<noteq> []" using join_has_nonempty by blast
    then show ?thesis using False by (simp add: compress_error_def Let_def)
  qed
qed

lemma compress_solution_nonempty: "compress_solution solution \<noteq> []"
proof -
  let ?lines = "split_on NL solution"
  let ?ks = "filter solution_line_kept (map strip ?lines)"
  have lines: "?lines \<noteq> []" by (rule split_on_not_Nil)
  show ?thesis
  proof (cases "length ?ks * 2 < length ?lines")
    case True
    have "1 \<le> length (take 2 ?lines)" using lines by (cases ?lines) auto
    moreover have "1 \<le> length (drop (length ?lines - 2) ?lines)"
      using lines by (cases ?lines) auto
    ultimately have "2 \<le> length (take 2 ?lines @ ?ks @ drop (length ?lines - 2) ?lines)"
      by simp
    then have "join [NL] (take 2 ?lines @ ?ks @ drop (length ?lines - 2) ?lines) \<noteq> []"
      by (rule join_two) simp
    then show ?thesis using True by (simp add: compress_solution_def Let_def)
  next
    case False
    have "0 < length ?lines" using lines by (rule length_greater_0_conv [THEN iffD2])
    with False have "0 < length ?ks" by linarith
    then have "?ks \<noteq> []" by (rule length_greater_0_conv [THEN iffD1])
    then obtain l where l: "l \<in> set ?ks" by (cases ?ks) auto
    then have "l \<noteq> []" using solution_line_kept_nonempty by auto
    with l have "join [NL] ?ks \<noteq> []" by (rule join_has_nonempty)
    then show ?thesis using False by (simp add: compress_solution_def Let_def)
  qed
qed

lemma compress_generic_nonempty: "content \<noteq> [] \<Longrightarrow> compress_generic content \<noteq> []"
  by (simp add: compress_generic_def)

text \<open>
  C7: for every non-empty input text and every kind (conversation, code, error, solution
  and any kind handled generically), the compressed text that the compression operation
  produces, and stores in the entry, is non-empty.
\<close>

theorem compressed_text_nonempty:
  assumes "content \<noteq> []"
  shows "compress_by_type content mem_type \<noteq> [] \<and>
         compressed_content (make_memory extract new_id now content mem_type context) \<noteq> []"
proof -
  have "compress_by_type content mem_type \<noteq> []"
    using assms compress_conversation_nonempty compress_code_nonempty compress_error_nonempty
      compress_solution_nonempty compress_generic_nonempty
    by (simp add: compress_by_type_def)
  then show ?thesis by (simp add: make_memory_def Let_def)
qed

theorem compressed_text_nonempty_witness:
  "''x'' \<noteq> [] \<and> compress_by_type ''x'' ''code'' \<noteq> [] \<and>
   compressed_content (make_memory no_entities ''mem_1'' 100 ''x'' ''code'' None) \<noteq> []"
  using compressed_text_nonempty [of "''x''" "''code''" no_entities "''mem_1''" 100 None]
  by simp

end
